theory Spec2Isabelle
  imports Complex_Main "HOL-Library.Sublist" "HOL-Library.Log_Nat"
begin

section \<open>Data model of the storefront component (home.tsx)\<close>

text \<open>
  The interfaces \<open>Rating\<close>, \<open>Product\<close> and \<open>CartItem\<close> of home.tsx become records;
  \<open>CartItem extends Product\<close> is a record extension. The field \<open>id\<close> is written
  \<open>id'\<close>, since \<open>id\<close> is the identity function of HOL. A TypeScript \<open>number\<close> that
  holds an identifier, a count or a quantity is an \<open>int\<close> (the component only ever adds
  the literals \<open>1\<close> and \<open>-1\<close> to a quantity that starts at \<open>1\<close>); a price or a rating
  score is the \<open>real\<close> value of the finite double that the decoder of the response
  produced. The component computes with prices in \<open>totalCost\<close> only, and there every
  operation rounds as IEEE 754 binary64 does. The optional field \<open>description?\<close> is an
  \<open>option\<close>.
\<close>

record Rating =
  rate :: real
  count :: int

record Product =
  id' :: int
  title :: string
  price :: real
  description :: "string option"
  category :: string
  image :: string
  rating :: Rating

record CartItem = Product +
  quantity :: int

text \<open>The object spread \<open>{ ...product, quantity: q }\<close>: every field of the product, and
  the quantity.\<close>

definition with_quantity :: "Product \<Rightarrow> int \<Rightarrow> CartItem" where
  "with_quantity product q =
     \<lparr>id' = id' product, title = title product, price = price product,
      description = description product, category = category product,
      image = image product, rating = rating product, quantity = q\<rparr>"

section \<open>Arithmetic on prices: IEEE 754 binary64\<close>

text \<open>
  The value of a number expression of JavaScript: a finite double, given by the real
  number it stands for, an infinity, or \<open>NaN\<close>. The sign of a zero is not kept: \<open>+0\<close>
  and \<open>-0\<close> are equal under \<open>===\<close>, and addition and multiplication give the same
  value for either.
\<close>

datatype number = Num real | Infinity | NegInfinity | NaN

text \<open>
  The binary exponent of a real other than \<open>0\<close>: the integer \<open>e\<close> with
  \<open>2 ^ e \<le> \<bar>x\<bar> < 2 ^ (e + 1)\<close>, from the bit length of the integer part, or of the
  reciprocal when \<open>\<bar>x\<bar> < 1\<close>.
\<close>

definition exponent :: "real \<Rightarrow> int" where
  "exponent x =
     (let a = \<bar>x\<bar> in
      if 1 \<le> a then bitlen \<lfloor>a\<rfloor> - 1 else - bitlen (\<lceil>1 / a\<rceil> - 1))"

text \<open>Rounding to the nearest integer, a tie going to the even one.\<close>

definition round_half_even :: "real \<Rightarrow> int" where
  "round_half_even y =
     (let f = \<lfloor>y\<rfloor>; d = y - of_int f in
      if d < 1 / 2 then f
      else if 1 / 2 < d then f + 1
      else if even f then f else f + 1)"

text \<open>
  The double nearest to a real, as every arithmetic operation of JavaScript rounds its
  exact result: 53 significant bits, so the last place of \<open>x\<close> is
  \<open>2 ^ (exponent x - 52)\<close>, but no finer than \<open>2 ^ (-1074)\<close> (the subnormal numbers);
  ties go to the even significand; a result of magnitude \<open>2 ^ 1024\<close> or more is an
  infinity.
\<close>

definition round_number :: "real \<Rightarrow> number" where
  "round_number x =
     (if x = 0 then Num 0
      else
        (let u = max (exponent x - 52) (- 1074);
             r = of_int (round_half_even (x / 2 powi u)) * 2 powi u
         in if 2 ^ 1024 \<le> r then Infinity
            else if r \<le> - (2 ^ 1024) then NegInfinity
            else Num r))"

text \<open>A real is (the value of) a finite double when rounding leaves it as it is.\<close>

definition is_double :: "real \<Rightarrow> bool" where
  "is_double x \<longleftrightarrow> round_number x = Num x"

text \<open>The operators \<open>+\<close> and \<open>*\<close> on numbers.\<close>

fun number_add :: "number \<Rightarrow> number \<Rightarrow> number" where
  "number_add NaN y = NaN"
| "number_add x NaN = NaN"
| "number_add Infinity NegInfinity = NaN"
| "number_add NegInfinity Infinity = NaN"
| "number_add Infinity y = Infinity"
| "number_add x Infinity = Infinity"
| "number_add NegInfinity y = NegInfinity"
| "number_add x NegInfinity = NegInfinity"
| "number_add (Num a) (Num b) = round_number (a + b)"

fun number_mul :: "number \<Rightarrow> number \<Rightarrow> number" where
  "number_mul NaN y = NaN"
| "number_mul x NaN = NaN"
| "number_mul Infinity Infinity = Infinity"
| "number_mul Infinity NegInfinity = NegInfinity"
| "number_mul NegInfinity Infinity = NegInfinity"
| "number_mul NegInfinity NegInfinity = Infinity"
| "number_mul Infinity (Num b) =
     (if b = 0 then NaN else if 0 < b then Infinity else NegInfinity)"
| "number_mul NegInfinity (Num b) =
     (if b = 0 then NaN else if 0 < b then NegInfinity else Infinity)"
| "number_mul (Num a) Infinity =
     (if a = 0 then NaN else if 0 < a then Infinity else NegInfinity)"
| "number_mul (Num a) NegInfinity =
     (if a = 0 then NaN else if 0 < a then NegInfinity else Infinity)"
| "number_mul (Num a) (Num b) = round_number (a * b)"

text \<open>A quantity, an integer in this model, as the double that holds it.\<close>

definition number_of_int :: "int \<Rightarrow> number" where
  "number_of_int q = round_number (of_int q)"

section \<open>Cart operations\<close>

text \<open>
  The cart is the array held by \<open>useState<CartItem[]>([])\<close>. Each handler reads the cart
  of the current render and hands the new array to \<open>setCart\<close>; every call in the
  component comes from its own click event, so the next call sees the array the previous
  one stored. The handlers are therefore functions from the cart to the new cart.
\<close>

text \<open>\<open>cart.find(item => item.id === product.id)\<close>: the first matching entry, or
  \<open>undefined\<close>.\<close>

definition existingItem :: "Product \<Rightarrow> CartItem list \<Rightarrow> CartItem option" where
  "existingItem product cart = find (\<lambda>item. id' item = id' product) cart"

definition addToCart :: "Product \<Rightarrow> CartItem list \<Rightarrow> CartItem list" where
  "addToCart product cart =
     (case existingItem product cart of
        Some _ \<Rightarrow>
          map (\<lambda>item. if id' item = id' product
                       then item\<lparr>quantity := quantity item + 1\<rparr>
                       else item) cart
      | None \<Rightarrow> cart @ [with_quantity product 1])"

definition updateQuantity :: "int \<Rightarrow> int \<Rightarrow> CartItem list \<Rightarrow> CartItem list" where
  "updateQuantity i delta cart =
     filter (\<lambda>item. quantity item > 0)
       (map (\<lambda>item. if id' item = i
                    then item\<lparr>quantity := max 0 (quantity item + delta)\<rparr>
                    else item) cart)"

definition removeFromCart :: "int \<Rightarrow> CartItem list \<Rightarrow> CartItem list" where
  "removeFromCart i cart = filter (\<lambda>item. id' item \<noteq> i) cart"

text \<open>
  The two \<open>reduce\<close> calls: a left fold from \<open>0\<close>. In \<open>totalCost\<close> the product
  \<open>item.price * item.quantity\<close> and the sum \<open>sum + ...\<close> are operations on doubles,
  each rounded. In \<open>totalItems\<close> the quantities are the integers of this model.
\<close>

definition totalCost :: "CartItem list \<Rightarrow> number" where
  "totalCost cart =
     foldl (\<lambda>sum item.
              number_add sum (number_mul (Num (price item)) (number_of_int (quantity item))))
       (Num 0) cart"

definition totalItems :: "CartItem list \<Rightarrow> int" where
  "totalItems cart = foldl (\<lambda>sum item. sum + quantity item) 0 cart"

text \<open>
  No step of \<open>totalCost\<close> rounds: from the sum \<open>running\<close> so far on, every price and
  quantity, every product of price and quantity and every partial sum is a finite double
  as it stands.
\<close>

fun no_rounding :: "real \<Rightarrow> CartItem list \<Rightarrow> bool" where
  "no_rounding running [] = True"
| "no_rounding running (item # cart) =
     (is_double (price item)
      \<and> is_double (of_int (quantity item))
      \<and> is_double (price item * of_int (quantity item))
      \<and> is_double (running + price item * of_int (quantity item))
      \<and> no_rounding (running + price item * of_int (quantity item)) cart)"

subsection \<open>Histories of cart operations\<close>

datatype cart_op =
    AddToCart Product
  | UpdateQuantity int int
  | RemoveFromCart int

fun apply_op :: "cart_op \<Rightarrow> CartItem list \<Rightarrow> CartItem list" where
  "apply_op (AddToCart product) cart = addToCart product cart"
| "apply_op (UpdateQuantity i delta) cart = updateQuantity i delta cart"
| "apply_op (RemoveFromCart i) cart = removeFromCart i cart"

text \<open>The cart after a history of calls, starting from the empty cart of the first
  render.\<close>

definition run_ops :: "cart_op list \<Rightarrow> CartItem list" where
  "run_ops ops = foldl (\<lambda>cart op. apply_op op cart) [] ops"

text \<open>The invariants of the data model: at most one entry per identifier, and every
  quantity positive.\<close>

definition ids :: "CartItem list \<Rightarrow> int list" where
  "ids cart = map id' cart"

definition cart_inv :: "CartItem list \<Rightarrow> bool" where
  "cart_inv cart \<longleftrightarrow> distinct (ids cart) \<and> list_all (\<lambda>item. 0 < quantity item) cart"

text \<open>
  The step of a history at which the entry of identifier \<open>i\<close> that is in the cart now
  was inserted, counting the calls from \<open>0\<close>; \<open>None\<close> when the cart has no entry for
  \<open>i\<close>. The history is read from its latest call backwards: an entry that was in the
  cart before the latest call keeps its step, and an entry that the latest call brought
  in has that call as its step.
\<close>

fun entered_rev :: "cart_op list \<Rightarrow> int \<Rightarrow> nat option" where
  "entered_rev [] i = None"
| "entered_rev (op # earlier) i =
     (if i \<in> set (ids (run_ops (rev (op # earlier)))) then
        (if i \<in> set (ids (run_ops (rev earlier))) then entered_rev earlier i
         else Some (length earlier))
      else None)"

definition entered :: "cart_op list \<Rightarrow> int \<Rightarrow> nat option" where
  "entered ops i = entered_rev (rev ops) i"

definition entered_before :: "cart_op list \<Rightarrow> int \<Rightarrow> int \<Rightarrow> bool" where
  "entered_before ops a b =
     (case (entered ops a, entered ops b) of
        (Some m, Some n) \<Rightarrow> m < n
      | _ \<Rightarrow> False)"

section \<open>The catalog view: state, filter effects, catalog fetch\<close>

text \<open>
  The \<open>useState\<close> cells that the fetch and the two filter effects read or write. The
  cells \<open>cart\<close> and \<open>isCartOpen\<close> are not touched by them; the cart is the list the
  operations above work on.
\<close>

record app_state =
  products :: "Product list"
  filteredProducts :: "Product list"
  searchQuery :: string
  loading :: bool
  error :: string
  selectedCategory :: string

text \<open>The state of the first render, from the arguments of the \<open>useState\<close> calls.\<close>

definition initial_state :: app_state where
  "initial_state =
     \<lparr>products = [], filteredProducts = [], searchQuery = [], loading = True,
      error = [], selectedCategory = ''all''\<rparr>"

subsection \<open>Strings\<close>

text \<open>
  \<open>String.prototype.toLowerCase\<close> on the letters \<open>A\<close> to \<open>Z\<close>; every other character
  is kept. Titles and search text are taken to be ASCII: the case mapping of other
  scripts is outside the model. \<open>String.prototype.includes\<close> holds when the argument
  occurs as a contiguous run of characters, which is \<^const>\<open>sublist\<close>; it is written
  \<open>includes'\<close> here, \<open>includes\<close> being a keyword of Isabelle.
\<close>

definition toLowerCase_char :: "char \<Rightarrow> char" where
  "toLowerCase_char c =
     (let n = (of_char c :: nat) in if 65 \<le> n \<and> n \<le> 90 then char_of (n + 32) else c)"

definition toLowerCase :: "string \<Rightarrow> string" where
  "toLowerCase s = map toLowerCase_char s"

definition includes' :: "string \<Rightarrow> string \<Rightarrow> bool" where
  "includes' str searchString = sublist searchString str"

subsection \<open>The two filter effects\<close>

text \<open>The effect with dependencies \<open>[selectedCategory, products]\<close>.\<close>

definition categoryEffect :: "app_state \<Rightarrow> app_state" where
  "categoryEffect st =
     (if selectedCategory st = ''all'' then st\<lparr>filteredProducts := products st\<rparr>
      else
        (let filtered = filter (\<lambda>p. category p = selectedCategory st) (products st)
         in st\<lparr>filteredProducts := filtered\<rparr>))"

text \<open>The effect with dependencies \<open>[searchQuery, products, selectedCategory]\<close>.\<close>

definition searchEffect :: "app_state \<Rightarrow> app_state" where
  "searchEffect st =
     (let filtered =
        filter (\<lambda>product. includes' (toLowerCase (title product)) (toLowerCase (searchQuery st)))
          (if selectedCategory st = ''all'' then products st
           else filter (\<lambda>p. category p = selectedCategory st) (products st))
      in st\<lparr>filteredProducts := filtered\<rparr>)"

text \<open>
  After a render React runs, in the order of their declaration, the effects of which a
  dependency changed; on the first render it runs all of them. A change of the search
  text therefore runs the second effect only, and a change of the category or of the
  catalog runs the first and then the second. None of them depends on
  \<open>filteredProducts\<close>, so the render they cause runs no effect again.
\<close>

definition first_render :: "app_state \<Rightarrow> app_state" where
  "first_render st = searchEffect (categoryEffect st)"

definition setSearchQuery :: "string \<Rightarrow> app_state \<Rightarrow> app_state" where
  "setSearchQuery q st = searchEffect (st\<lparr>searchQuery := q\<rparr>)"

definition setSelectedCategory :: "string \<Rightarrow> app_state \<Rightarrow> app_state" where
  "setSelectedCategory k st = searchEffect (categoryEffect (st\<lparr>selectedCategory := k\<rparr>))"

subsection \<open>The catalog fetch\<close>

text \<open>
  What the \<open>catch\<close> clause can receive: an \<open>Error\<close> object with its message, or any
  other value.
\<close>

datatype thrown = JsError string | OtherValue

text \<open>
  How the one request ends: \<open>fetch\<close> rejects (a network error), or it resolves with a
  response, of which the code reads the flag \<open>ok\<close> and, when it is set, the decoded body;
  \<open>response.json()\<close> rejects on a malformed body.
\<close>

datatype fetch_outcome =
    Rejected thrown
  | Responded bool "thrown + Product list"

definition fetch_start :: "app_state \<Rightarrow> app_state" where
  "fetch_start st = st\<lparr>loading := True, error := []\<rparr>"

definition fetch_finally :: "app_state \<Rightarrow> app_state" where
  "fetch_finally st = st\<lparr>loading := False\<rparr>"

definition fetch_catch :: "thrown \<Rightarrow> app_state \<Rightarrow> app_state" where
  "fetch_catch err st =
     fetch_finally
       (st\<lparr>error := (case err of
                        JsError message \<Rightarrow> message
                      | OtherValue \<Rightarrow> ''An error occurred while fetching products'')\<rparr>)"

definition fetch_settle :: "fetch_outcome \<Rightarrow> app_state \<Rightarrow> app_state" where
  "fetch_settle outcome st =
     (case outcome of
        Rejected err \<Rightarrow> fetch_catch err st
      | Responded ok body \<Rightarrow>
          if \<not> ok then fetch_catch (JsError ''Failed to fetch products'') st
          else
            (case body of
               Inl err \<Rightarrow> fetch_catch err st
             | Inr data \<Rightarrow>
                 fetch_finally (st\<lparr>products := data, filteredProducts := data\<rparr>)))"

text \<open>
  The network is the list of the outcomes it would give to the first, second, ...
  request. \<open>fetchProducts\<close> issues one request: it takes the first outcome and leaves
  the others. With no outcome the request never settles and the state stays as the two
  calls before the \<open>try\<close> left it.
\<close>

fun fetchProducts :: "fetch_outcome list \<Rightarrow> app_state \<Rightarrow> app_state \<times> fetch_outcome list" where
  "fetchProducts [] st = (fetch_start st, [])"
| "fetchProducts (outcome # later) st = (fetch_settle outcome (fetch_start st), later)"

text \<open>Whether an outcome is a failure: a rejected request, a response without \<open>ok\<close>,
  or a body that does not decode.\<close>

fun is_failure :: "fetch_outcome \<Rightarrow> bool" where
  "is_failure (Rejected err) = True"
| "is_failure (Responded ok body) = (\<not> ok \<or> isl body)"

text \<open>
  The render after the request settled. A decoded catalog is a new array, so the
  dependency \<open>products\<close> of both filter effects changed and they run, the first and
  then the second; React 18 batches the two \<open>set\<close> calls of the \<open>try\<close> block into
  this one render. After a failure no dependency changed and no effect runs.
\<close>

definition render_settled :: "fetch_outcome \<Rightarrow> app_state \<Rightarrow> app_state" where
  "render_settled outcome st =
     (if is_failure outcome then fetch_settle outcome st
      else searchEffect (categoryEffect (fetch_settle outcome st)))"

section \<open>Example data\<close>

definition shirt :: Product where
  "shirt =
     \<lparr>id' = 1, title = ''Mens Casual Shirt'', price = 10, description = None,
      category = ''men's clothing'', image = ''shirt.png'',
      rating = \<lparr>rate = 4, count = 12\<rparr>\<rparr>"

definition ring :: Product where
  "ring =
     \<lparr>id' = 2, title = ''Gold Ring'', price = 5, description = Some ''A ring'',
      category = ''jewelery'', image = ''ring.png'',
      rating = \<lparr>rate = 3, count = 7\<rparr>\<rparr>"

text \<open>A product priced \<open>9.85\<close>: the price is the double nearest to that decimal.\<close>

definition earrings :: Product where
  "earrings =
     \<lparr>id' = 3, title = ''Rose Gold Earrings'', price = 5545057041199923 / 562949953421312,
      description = None, category = ''jewelery'', image = ''earrings.png'',
      rating = \<lparr>rate = 2, count = 100\<rparr>\<rparr>"


section \<open>Basic facts about the cart operations\<close>

lemma existingItem_None: "existingItem product cart = None \<longleftrightarrow> id' product \<notin> set (ids cart)"
  by (force simp: existingItem_def ids_def find_None_iff)

lemma addToCart_absent:
  "id' product \<notin> set (ids cart) \<Longrightarrow> addToCart product cart = cart @ [with_quantity product 1]"
  using existingItem_None [of product cart] by (simp add: addToCart_def)

lemma addToCart_present:
  "id' product \<in> set (ids cart) \<Longrightarrow>
     addToCart product cart =
       map (\<lambda>item. if id' item = id' product then item\<lparr>quantity := quantity item + 1\<rparr> else item) cart"
  using existingItem_None [of product cart] by (cases "existingItem product cart") (simp_all add: addToCart_def)

lemma id_with_quantity [simp]: "id' (with_quantity product q) = id' product"
  and quantity_with_quantity [simp]: "quantity (with_quantity product q) = q"
  by (simp_all add: with_quantity_def)

lemma ids_bump:
  "map id' (map (\<lambda>item. if id' item = i then item\<lparr>quantity := f item\<rparr> else item) cart) = map id' cart"
  by (induction cart) auto

lemma ids_addToCart:
  "ids (addToCart product cart) =
     (if id' product \<in> set (ids cart) then ids cart else ids cart @ [id' product])"
  by (simp add: addToCart_absent addToCart_present) (simp add: ids_def ids_bump)

lemma ids_removeFromCart: "ids (removeFromCart i cart) = filter (\<lambda>j. j \<noteq> i) (ids cart)"
  by (simp add: removeFromCart_def ids_def filter_map comp_def)

lemma ids_updateQuantity: "subseq (ids (updateQuantity i delta cart)) (ids cart)"
proof -
  let ?m = "map (\<lambda>item. if id' item = i then item\<lparr>quantity := max 0 (quantity item + delta)\<rparr> else item) cart"
  have "subseq (map id' (filter (\<lambda>item. quantity item > 0) ?m)) (map id' ?m)"
    by (intro subseq_map subseq_filter_left)
  then show ?thesis by (simp only: ids_bump ids_def updateQuantity_def)
qed

lemma distinct_ids_updateQuantity:
  assumes "distinct (ids cart)"
  shows "distinct (ids (updateQuantity i delta cart))"
proof -
  let ?m = "map (\<lambda>item. if id' item = i then item\<lparr>quantity := max 0 (quantity item + delta)\<rparr> else item) cart"
  from assms have "distinct (map id' ?m)" by (simp only: ids_bump ids_def)
  then have "distinct (map id' (filter (\<lambda>item. quantity item > 0) ?m))"
    by (rule distinct_map_filter)
  then show ?thesis by (simp only: ids_def updateQuantity_def)
qed

lemma positive_addToCart:
  "list_all (\<lambda>item. 0 < quantity item) cart \<Longrightarrow>
     list_all (\<lambda>item. 0 < quantity item) (addToCart product cart)"
  by (cases "id' product \<in> set (ids cart)")
     (auto simp: addToCart_absent addToCart_present list_all_iff)

lemma positive_updateQuantity:
  "list_all (\<lambda>item. 0 < quantity item) (updateQuantity i delta cart)"
  by (simp add: updateQuantity_def list_all_iff)

lemma positive_removeFromCart:
  "list_all (\<lambda>item. 0 < quantity item) cart \<Longrightarrow>
     list_all (\<lambda>item. 0 < quantity item) (removeFromCart i cart)"
  by (simp add: removeFromCart_def list_all_iff)

lemma cart_inv_apply_op: "cart_inv cart \<Longrightarrow> cart_inv (apply_op op cart)"
proof (cases op)
  case (AddToCart p)
  assume "cart_inv cart"
  then show ?thesis using AddToCart
    by (simp add: cart_inv_def positive_addToCart ids_addToCart)
next
  case (UpdateQuantity i d)
  assume "cart_inv cart"
  then show ?thesis using UpdateQuantity
    by (simp add: cart_inv_def positive_updateQuantity distinct_ids_updateQuantity)
next
  case (RemoveFromCart i)
  assume "cart_inv cart"
  then show ?thesis using RemoveFromCart
    by (simp add: cart_inv_def positive_removeFromCart ids_removeFromCart)
qed

lemma run_ops_snoc: "run_ops (ops @ [op]) = apply_op op (run_ops ops)"
  by (simp add: run_ops_def)

lemma cart_inv_run_ops: "cart_inv (run_ops ops)"
proof (induction ops rule: rev_induct)
  case Nil
  show ?case by (simp add: run_ops_def cart_inv_def ids_def)
next
  case (snoc op ops)
  then show ?case by (simp add: run_ops_snoc cart_inv_apply_op)
qed

lemma mem_ids: "i \<in> set (ids cart) \<longleftrightarrow> (\<exists>item \<in> set cart. id' item = i)"
  by (auto simp: ids_def)

lemma cart_inv_positive: "cart_inv cart \<Longrightarrow> item \<in> set cart \<Longrightarrow> 0 < quantity item"
  by (simp add: cart_inv_def list_all_iff)

lemma cart_inv_unique:
  "cart_inv cart \<Longrightarrow> x \<in> set cart \<Longrightarrow> y \<in> set cart \<Longrightarrow> id' x = id' y \<Longrightarrow> x = y"
  unfolding cart_inv_def ids_def
  by (meson distinct_map inj_onD)

lemma filter_other_ids:
  "i \<notin> set (ids cart) \<Longrightarrow> filter (\<lambda>item. id' item \<noteq> i) cart = cart"
  by (induction cart) (auto simp: ids_def)

lemma updateQuantity_absent:
  assumes "cart_inv cart" and "i \<notin> set (ids cart)"
  shows "updateQuantity i delta cart = cart"
proof -
  have "map (\<lambda>item. if id' item = i then item\<lparr>quantity := max 0 (quantity item + delta)\<rparr> else item) cart = cart"
    using assms(2) by (intro map_idI) (force simp: ids_def)
  moreover have "filter (\<lambda>item. quantity item > 0) cart = cart"
    using assms(1) by (simp add: cart_inv_def list_all_iff)
  ultimately show ?thesis by (simp add: updateQuantity_def)
qed

lemma updateQuantity_keep:
  assumes inv: "cart_inv cart" and mem: "item \<in> set cart" and i: "id' item = i"
    and pos: "0 < quantity item + delta"
  shows "updateQuantity i delta cart =
     map (\<lambda>x. if id' x = i then x\<lparr>quantity := quantity x + delta\<rparr> else x) cart"
proof -
  have same: "\<And>x. x \<in> set cart \<Longrightarrow> id' x = i \<Longrightarrow> x = item"
    using cart_inv_unique [OF inv _ mem] i by simp
  have floor: "map (\<lambda>x. if id' x = i then x\<lparr>quantity := max 0 (quantity x + delta)\<rparr> else x) cart =
        map (\<lambda>x. if id' x = i then x\<lparr>quantity := quantity x + delta\<rparr> else x) cart"
    using same pos by (intro map_cong) auto
  have kept: "filter (\<lambda>x. quantity x > 0)
        (map (\<lambda>x. if id' x = i then x\<lparr>quantity := quantity x + delta\<rparr> else x) cart) =
        map (\<lambda>x. if id' x = i then x\<lparr>quantity := quantity x + delta\<rparr> else x) cart"
    using same pos cart_inv_positive [OF inv] by (intro filter_True) auto
  show ?thesis by (simp only: updateQuantity_def floor kept)
qed

lemma updateQuantity_drop:
  assumes inv: "cart_inv cart" and mem: "item \<in> set cart" and i: "id' item = i"
    and neg: "quantity item + delta \<le> 0"
  shows "updateQuantity i delta cart = filter (\<lambda>x. id' x \<noteq> i) cart"
proof -
  have same: "\<And>x. x \<in> set cart \<Longrightarrow> id' x = i \<Longrightarrow> x = item"
    using cart_inv_unique [OF inv _ mem] i by simp
  have "filter (\<lambda>x. quantity x > 0)
          (map (\<lambda>x. if id' x = i then x\<lparr>quantity := max 0 (quantity x + delta)\<rparr> else x) cart) =
        map (\<lambda>x. if id' x = i then x\<lparr>quantity := max 0 (quantity x + delta)\<rparr> else x)
          (filter (\<lambda>x. id' x \<noteq> i) cart)"
    unfolding filter_map comp_def
    using same neg cart_inv_positive [OF inv]
    by (intro arg_cong [where f = "map _"] filter_cong) auto
  also have "\<dots> = filter (\<lambda>x. id' x \<noteq> i) cart"
    by (intro map_idI) auto
  finally show ?thesis by (simp add: updateQuantity_def)
qed

lemma count_bump:
  "length (filter (\<lambda>x. id' x = j) (map (\<lambda>item. if id' item = i then item\<lparr>quantity := f item\<rparr> else item) cart))
    = length (filter (\<lambda>x. id' x = j) cart)"
  by (induction cart) auto

lemma foldl_plus_sum_list:
  "foldl (\<lambda>sum item. sum + f item) a xs = a + sum_list (map f xs)"
  for a :: "'a::monoid_add"
  by (induction xs arbitrary: a) (simp_all add: add.assoc)

section \<open>Basic facts about double arithmetic\<close>

lemma round_half_even_of_int: "round_half_even (of_int k) = k"
  by (simp add: round_half_even_def)

lemma exponent_le:
  fixes m e :: int
  assumes x: "x = of_int m * 2 powi e" and m: "m \<noteq> 0" "\<bar>m\<bar> < 2 ^ 53"
  shows "exponent x \<le> e + 52"
proof -
  define a where "a = \<bar>x\<bar>"
  have a: "a = of_int \<bar>m\<bar> * 2 powi e"
    by (simp add: a_def x abs_mult)
  have pos: "0 < a"
    using m(1) by (simp add: a)
  have "of_int \<bar>m\<bar> < (2::real) ^ 53"
    using m(2) by (metis of_int_less_numeral_power_cancel_iff)
  then have "a < 2 ^ 53 * 2 powi e"
    unfolding a by (intro mult_strict_right_mono) simp_all
  also have "\<dots> = 2 powi (53 + e)"
    by (simp add: power_int_add)
  finally have less: "a < 2 powi (53 + e)" .
  show ?thesis
  proof (cases "1 \<le> a")
    case True
    with less have "(1::real) < 2 powi (53 + e)" by simp
    have e: "0 < 53 + e"
    proof (rule ccontr)
      assume "\<not> 0 < 53 + e"
      then have "(2::real) powi (53 + e) \<le> 2 powi 0"
        by (intro power_int_increasing) simp_all
      with \<open>1 < 2 powi (53 + e)\<close> show False by simp
    qed
    have "of_int \<lfloor>a\<rfloor> \<le> a" by simp
    also note less
    also have "(2::real) powi (53 + e) = 2 ^ nat (53 + e)"
      using e by (simp add: power_int_def)
    finally have "\<lfloor>a\<rfloor> < 2 ^ nat (53 + e)"
      by (metis of_int_less_numeral_power_cancel_iff)
    then have "bitlen \<lfloor>a\<rfloor> \<le> 53 + e"
      using e by (simp add: bitlen_le_iff_power)
    with True show ?thesis
      by (simp add: exponent_def a_def [symmetric])
  next
    case False
    then have ex: "exponent x = - bitlen (\<lceil>1 / a\<rceil> - 1)"
      by (simp add: exponent_def a_def [symmetric])
    show ?thesis
    proof (cases "0 \<le> e + 52")
      case True
      with ex bitlen_nonneg [of "\<lceil>1 / a\<rceil> - 1"] show ?thesis by linarith
    next
      case neg: False
      define j where "j = nat (- 53 - e)"
      have j: "int j = - 53 - e" using neg by (simp add: j_def)
      have "53 + e = - int j" using j by simp
      then have "(2::real) powi (53 + e) = 1 / 2 ^ j"
        by (simp only: power_int_minus_divide power_int_of_nat)
      with less have "a < 1 / 2 ^ j" by simp
      with pos have "2 ^ j < 1 / a"
        by (simp add: field_simps)
      also have "1 / a \<le> of_int \<lceil>1 / a\<rceil>" by simp
      finally have "(2::int) ^ j < \<lceil>1 / a\<rceil>"
        by (metis of_int_less_iff of_int_numeral of_int_power)
      then have "\<not> \<lceil>1 / a\<rceil> - 1 < 2 ^ nat (int j)" by simp
      then have "\<not> bitlen (\<lceil>1 / a\<rceil> - 1) \<le> int j"
        by (simp add: bitlen_le_iff_power)
      with ex j show ?thesis by linarith
    qed
  qed
qed

lemma round_number_exact:
  fixes m e :: int
  assumes m: "\<bar>m\<bar> < 2 ^ 53" and e: "- 1074 \<le> e" "e \<le> 971"
  shows "round_number (of_int m * 2 powi e) = Num (of_int m * 2 powi e)"
proof (cases "m = 0")
  case True
  then show ?thesis by (simp add: round_number_def)
next
  case False
  define x :: real where "x = of_int m * 2 powi e"
  define u where "u = max (exponent x - 52) (- 1074)"
  have nz: "x \<noteq> 0" using False by (simp add: x_def)
  have "exponent x \<le> e + 52"
    using x_def False m by (rule exponent_le)
  then have u: "u \<le> e" using e(1) by (simp add: u_def)
  have "x / 2 powi u = of_int m * 2 powi (e - u)"
    by (simp add: x_def power_int_diff)
  also have "\<dots> = of_int (m * 2 ^ nat (e - u))"
    using u by (simp add: power_int_def)
  finally have "round_half_even (x / 2 powi u) = m * 2 ^ nat (e - u)"
    by (simp only: round_half_even_of_int)
  then have "of_int (round_half_even (x / 2 powi u)) * 2 powi u = of_int m * 2 powi (e - u) * 2 powi u"
    using u by (simp add: power_int_def)
  also have "\<dots> = x"
    by (simp add: x_def power_int_diff)
  finally have r: "of_int (round_half_even (x / 2 powi u)) * 2 powi u = x" .
  have "of_int \<bar>m\<bar> < (2::real) ^ 53"
    using m by (metis of_int_less_numeral_power_cancel_iff)
  then have "\<bar>x\<bar> < 2 ^ 53 * 2 powi e"
    unfolding x_def abs_mult by (simp add: mult_strict_right_mono)
  also have "\<dots> = 2 powi (53 + e)"
    by (simp add: power_int_add)
  also have "\<dots> \<le> 2 powi 1024"
    using e(2) by (intro power_int_increasing) simp_all
  finally have "\<bar>x\<bar> < 2 ^ 1024" by simp
  then have "\<not> 2 ^ 1024 \<le> x" "\<not> x \<le> - (2 ^ 1024)" by linarith+
  with nz r show ?thesis
    unfolding x_def [symmetric] by (simp add: round_number_def u_def [symmetric] Let_def)
qed

lemma round_number_int:
  "\<bar>n\<bar> < 2 ^ 53 \<Longrightarrow> round_number (of_int n) = Num (of_int n)"
  using round_number_exact [of n 0] by simp

lemma no_rounding_fold:
  "no_rounding s cart \<Longrightarrow>
     foldl (\<lambda>sum item.
              number_add sum (number_mul (Num (price item)) (number_of_int (quantity item))))
       (Num s) cart
     = Num (s + (\<Sum>item \<leftarrow> cart. price item * of_int (quantity item)))"
proof (induction cart arbitrary: s)
  case Nil
  show ?case by simp
next
  case (Cons item cart)
  let ?p = "price item * of_int (quantity item)"
  from Cons.prems have q: "number_of_int (quantity item) = Num (of_int (quantity item))"
    and p: "round_number ?p = Num ?p"
    and s: "round_number (s + ?p) = Num (s + ?p)"
    and rest: "no_rounding (s + ?p) cart"
    by (simp_all add: is_double_def number_of_int_def)
  have "number_add (Num s) (number_mul (Num (price item)) (number_of_int (quantity item)))
      = Num (s + ?p)"
    by (simp add: q p s)
  with Cons.IH [OF rest] show ?case
    by (simp add: add.assoc)
qed

lemma small_ints_round:
  "round_number 1 = Num 1" "round_number 2 = Num 2" "round_number 5 = Num 5"
  "round_number 10 = Num 10" "round_number 20 = Num 20" "round_number 25 = Num 25"
  using round_number_int [of 1] round_number_int [of 2] round_number_int [of 5]
    round_number_int [of 10] round_number_int [of 20] round_number_int [of 25]
  by simp_all

lemma round_price_times_three:
  "round_number (16635171123599769 / 562949953421312) = Num (2079396390449971 / 70368744177664)"
proof -
  have b: "bitlen 29 = 5" by code_simp
  have e: "exponent (16635171123599769 / 562949953421312) = 4"
    by (simp add: exponent_def b)
  show ?thesis
    by (simp add: round_number_def e round_half_even_def power_int_minus_divide)
qed

lemma round_rounded_product:
  "round_number (2079396390449971 / 70368744177664) = Num (2079396390449971 / 70368744177664)"
  using round_number_exact [of 2079396390449971 "- 46"]
  by (simp add: power_int_minus_divide)

lemma round_price:
  "round_number (5545057041199923 / 562949953421312) = Num (5545057041199923 / 562949953421312)"
  using round_number_exact [of 5545057041199923 "- 49"]
  by (simp add: power_int_minus_divide)

section \<open>Claims about the cart\<close>

text \<open>
  Claim C2. Every cart that a history of \<open>addToCart\<close>, \<open>updateQuantity\<close> and
  \<open>removeFromCart\<close> calls reaches from the empty cart has at most one entry for each
  product identifier, and every quantity in it is positive.
\<close>

theorem reachable_cart_invariant:
  "distinct (map id' (run_ops ops)) \<and> (\<forall>item \<in> set (run_ops ops). 0 < quantity item)"
  using cart_inv_run_ops [of ops] by (simp add: cart_inv_def ids_def list_all_iff)

theorem reachable_cart_invariant_witness:
  "run_ops [AddToCart shirt, AddToCart ring, AddToCart shirt, UpdateQuantity 2 (- 1),
            RemoveFromCart 7] = [with_quantity shirt 2]
   \<and> distinct (map id' (run_ops [AddToCart shirt, AddToCart ring, AddToCart shirt,
                                  UpdateQuantity 2 (- 1), RemoveFromCart 7]))
   \<and> list_all (\<lambda>item. 0 < quantity item)
         (run_ops [AddToCart shirt, AddToCart ring, AddToCart shirt, UpdateQuantity 2 (- 1),
                   RemoveFromCart 7])"
proof -
  let ?ops = "[AddToCart shirt, AddToCart ring, AddToCart shirt, UpdateQuantity 2 (- 1),
               RemoveFromCart 7]"
  have "run_ops ?ops = [with_quantity shirt 2]"
    by (simp add: run_ops_def addToCart_def existingItem_def updateQuantity_def
        removeFromCart_def with_quantity_def shirt_def ring_def)
  moreover from reachable_cart_invariant [of ?ops]
  have "distinct (map id' (run_ops ?ops))"
    and "list_all (\<lambda>item. 0 < quantity item) (run_ops ?ops)"
    by (simp_all only: list_all_iff) blast+
  ultimately show ?thesis by (simp only: simp_thms)
qed

text \<open>
  Claim C3. For every cart and every product, \<open>addToCart\<close> adds exactly \<open>1\<close> to the
  quantity of the entry with the product's identifier when there is one, and leaves the
  other entries as they are; otherwise it inserts an entry with quantity \<open>1\<close>, at the
  end. The number of entries with a given identifier does not change, except that the
  identifier of an absent product gets its one entry, so a cart without duplicates stays
  without. Two calls in a row on a cart without the product give one entry with
  quantity \<open>2\<close>.
\<close>

theorem addToCart_spec:
  "(id' product \<in> set (ids cart) \<longrightarrow>
      addToCart product cart =
        map (\<lambda>item. if id' item = id' product then item\<lparr>quantity := quantity item + 1\<rparr> else item) cart)
   \<and> (id' product \<notin> set (ids cart) \<longrightarrow>
      addToCart product cart = cart @ [with_quantity product 1]
      \<and> addToCart product (addToCart product cart) = cart @ [with_quantity product 2])
   \<and> (\<forall>j. length (filter (\<lambda>item. id' item = j) (addToCart product cart)) =
          (if j = id' product \<and> j \<notin> set (ids cart) then 1
           else length (filter (\<lambda>item. id' item = j) cart)))
   \<and> (distinct (ids cart) \<longrightarrow> distinct (ids (addToCart product cart)))"
proof (intro conjI impI allI)
  assume "id' product \<in> set (ids cart)"
  then show "addToCart product cart =
        map (\<lambda>item. if id' item = id' product then item\<lparr>quantity := quantity item + 1\<rparr> else item) cart"
    by (rule addToCart_present)
next
  assume "id' product \<notin> set (ids cart)"
  then show "addToCart product cart = cart @ [with_quantity product 1]"
    by (rule addToCart_absent)
next
  assume absent: "id' product \<notin> set (ids cart)"
  then have m: "map (\<lambda>item. if id' item = id' product then item\<lparr>quantity := quantity item + 1\<rparr> else item) cart = cart"
    by (intro map_idI) (force simp: ids_def)
  have "id' product \<in> set (ids (cart @ [with_quantity product 1]))"
    by (simp add: ids_def)
  then have "addToCart product (cart @ [with_quantity product 1]) =
     map (\<lambda>item. if id' item = id' product then item\<lparr>quantity := quantity item + 1\<rparr> else item) (cart @ [with_quantity product 1])"
    by (rule addToCart_present)
  also have "\<dots> = cart @ [with_quantity product 2]"
    using m by (simp add: with_quantity_def)
  finally show "addToCart product (addToCart product cart) = cart @ [with_quantity product 2]"
    using absent by (simp add: addToCart_absent)
next
  fix j
  show "length (filter (\<lambda>item. id' item = j) (addToCart product cart)) =
          (if j = id' product \<and> j \<notin> set (ids cart) then 1
           else length (filter (\<lambda>item. id' item = j) cart))"
  proof (cases "id' product \<in> set (ids cart)")
    case True
    then have "length (filter (\<lambda>item. id' item = j) (addToCart product cart)) =
        length (filter (\<lambda>item. id' item = j) cart)"
      by (simp only: addToCart_present count_bump)
    with True show ?thesis by auto
  next
    case False
    then have "filter (\<lambda>item. id' item = id' product) cart = []"
      by (force simp: filter_empty_conv ids_def)
    with False show ?thesis by (auto simp add: addToCart_absent)
  qed
next
  assume "distinct (ids cart)"
  then show "distinct (ids (addToCart product cart))"
    by (simp add: ids_addToCart)
qed

theorem addToCart_spec_witness:
  "addToCart shirt [with_quantity ring 1] = [with_quantity ring 1, with_quantity shirt 1]
   \<and> addToCart shirt (addToCart shirt [with_quantity ring 1])
        = [with_quantity ring 1, with_quantity shirt 2]
   \<and> addToCart ring [with_quantity ring 1] = [with_quantity ring 2]
   \<and> distinct (ids (addToCart ring [with_quantity ring 1]))"
proof -
  have absent: "id' shirt \<notin> set (ids [with_quantity ring 1])"
    by (simp add: ids_def shirt_def ring_def)
  have present: "id' ring \<in> set (ids [with_quantity ring 1])"
    by (simp add: ids_def)
  have nodup: "distinct (ids [with_quantity ring 1])"
    by (simp add: ids_def)
  from addToCart_spec [of shirt "[with_quantity ring 1]"] absent
  have "addToCart shirt [with_quantity ring 1] = [with_quantity ring 1] @ [with_quantity shirt 1]"
    and "addToCart shirt (addToCart shirt [with_quantity ring 1])
        = [with_quantity ring 1] @ [with_quantity shirt 2]"
    by blast+
  moreover from addToCart_spec [of ring "[with_quantity ring 1]"] present nodup
  have "addToCart ring [with_quantity ring 1] =
      map (\<lambda>item. if id' item = id' ring then item\<lparr>quantity := quantity item + 1\<rparr> else item)
        [with_quantity ring 1]"
    and "distinct (ids (addToCart ring [with_quantity ring 1]))"
    by blast+
  ultimately show ?thesis by (simp add: with_quantity_def)
qed

text \<open>
  Claim C4. On a cart that satisfies the invariants, \<open>updateQuantity i delta\<close> leaves the
  cart as it is when no entry has the identifier \<open>i\<close>. When an entry has it, the new
  quantity is the old one plus \<open>delta\<close>, floored at \<open>0\<close>: the entry is removed in the
  same call when that is not positive, and carries the new quantity otherwise; the other
  entries are kept unchanged. No entry of the result has a quantity of \<open>0\<close> or less, and
  the invariants hold again.
\<close>

theorem updateQuantity_spec:
  assumes "cart_inv cart"
  shows "(i \<notin> set (ids cart) \<longrightarrow> updateQuantity i delta cart = cart)
    \<and> (\<forall>item \<in> set cart. id' item = i \<longrightarrow>
          updateQuantity i delta cart =
            (if max 0 (quantity item + delta) \<le> 0 then filter (\<lambda>x. id' x \<noteq> i) cart
             else map (\<lambda>x. if id' x = i then x\<lparr>quantity := max 0 (quantity item + delta)\<rparr> else x) cart))
    \<and> (\<forall>item \<in> set (updateQuantity i delta cart). 0 < quantity item)
    \<and> cart_inv (updateQuantity i delta cart)"
proof (intro conjI ballI impI)
  assume "i \<notin> set (ids cart)"
  with assms show "updateQuantity i delta cart = cart" by (rule updateQuantity_absent)
next
  fix item assume mem: "item \<in> set cart" and i: "id' item = i"
  have same: "\<And>x. x \<in> set cart \<Longrightarrow> id' x = i \<Longrightarrow> x = item"
    using cart_inv_unique [OF assms _ mem] i by simp
  show "updateQuantity i delta cart =
            (if max 0 (quantity item + delta) \<le> 0 then filter (\<lambda>x. id' x \<noteq> i) cart
             else map (\<lambda>x. if id' x = i then x\<lparr>quantity := max 0 (quantity item + delta)\<rparr> else x) cart)"
  proof (cases "quantity item + delta \<le> 0")
    case True
    then show ?thesis using updateQuantity_drop [OF assms mem i True] by simp
  next
    case False
    then have pos: "0 < quantity item + delta" by simp
    have "map (\<lambda>x. if id' x = i then x\<lparr>quantity := quantity x + delta\<rparr> else x) cart =
          map (\<lambda>x. if id' x = i then x\<lparr>quantity := max 0 (quantity item + delta)\<rparr> else x) cart"
      using same pos by (intro map_cong) auto
    then show ?thesis using updateQuantity_keep [OF assms mem i pos] pos by simp
  qed
next
  fix item assume "item \<in> set (updateQuantity i delta cart)"
  then show "0 < quantity item" by (simp add: updateQuantity_def)
next
  from assms show "cart_inv (updateQuantity i delta cart)"
    using cart_inv_apply_op [of cart "UpdateQuantity i delta"] by simp
qed

theorem updateQuantity_spec_witness:
  "cart_inv [with_quantity shirt 2, with_quantity ring 1]
   \<and> updateQuantity 1 3 [with_quantity shirt 2, with_quantity ring 1]
        = [with_quantity shirt 5, with_quantity ring 1]
   \<and> updateQuantity 2 (- 4) [with_quantity shirt 2, with_quantity ring 1]
        = [with_quantity shirt 2]
   \<and> updateQuantity 9 (- 1) [with_quantity shirt 2, with_quantity ring 1]
        = [with_quantity shirt 2, with_quantity ring 1]"
proof -
  let ?cart = "[with_quantity shirt 2, with_quantity ring 1]"
  have inv: "cart_inv ?cart"
    by (simp add: cart_inv_def ids_def shirt_def ring_def)
  have absent: "9 \<notin> set (ids ?cart)"
    by (simp add: ids_def shirt_def ring_def)
  have s: "with_quantity shirt 2 \<in> set ?cart" "id' (with_quantity shirt 2) = 1"
    and r: "with_quantity ring 1 \<in> set ?cart" "id' (with_quantity ring 1) = 2"
    by (simp_all add: shirt_def ring_def)
  from updateQuantity_spec [OF inv, of 9 "- 1"] absent
  have "updateQuantity 9 (- 1) ?cart = ?cart" by blast
  moreover from updateQuantity_spec [OF inv, of 1 3] s
  have "updateQuantity 1 3 ?cart =
      (if max 0 (quantity (with_quantity shirt 2) + 3) \<le> 0 then filter (\<lambda>x. id' x \<noteq> 1) ?cart
       else map (\<lambda>x. if id' x = 1
                      then x\<lparr>quantity := max 0 (quantity (with_quantity shirt 2) + 3)\<rparr>
                      else x) ?cart)"
    by blast
  moreover from updateQuantity_spec [OF inv, of 2 "- 4"] r
  have "updateQuantity 2 (- 4) ?cart =
      (if max 0 (quantity (with_quantity ring 1) + - 4) \<le> 0 then filter (\<lambda>x. id' x \<noteq> 2) ?cart
       else map (\<lambda>x. if id' x = 2
                      then x\<lparr>quantity := max 0 (quantity (with_quantity ring 1) + - 4)\<rparr>
                      else x) ?cart)"
    by blast
  ultimately show ?thesis
    using inv by (simp add: with_quantity_def shirt_def ring_def)
qed

text \<open>
  Claim C5. On a cart that satisfies the invariants, \<open>addToCart\<close> of a product followed
  by \<open>updateQuantity\<close> of its identifier with \<open>-1\<close> gives back exactly the cart before
  the \<open>addToCart\<close> call; when the product was absent, the new entry is removed again.
\<close>

theorem add_then_decrement:
  assumes "cart_inv cart"
  shows "updateQuantity (id' product) (- 1) (addToCart product cart) = cart"
proof (cases "id' product \<in> set (ids cart)")
  case False
  have inv': "cart_inv (addToCart product cart)"
    using cart_inv_apply_op [OF assms, of "AddToCart product"] by simp
  have "updateQuantity (id' product) (- 1) (cart @ [with_quantity product 1]) =
        filter (\<lambda>x. id' x \<noteq> id' product) (cart @ [with_quantity product 1])"
    using inv' False by (intro updateQuantity_drop [where item = "with_quantity product 1"])
      (simp_all add: addToCart_absent)
  also have "\<dots> = cart"
    using False by (force simp: ids_def intro: filter_True)
  finally show ?thesis using False by (simp add: addToCart_absent)
next
  case True
  let ?bump = "\<lambda>item. if id' item = id' product then item\<lparr>quantity := quantity item + 1\<rparr> else item"
  let ?undo = "\<lambda>item. if id' item = id' product then item\<lparr>quantity := max 0 (quantity item + - 1)\<rparr> else item"
  have "map (?undo \<circ> ?bump) cart = cart"
    using cart_inv_positive [OF assms] by (intro map_idI) auto
  then have "map ?undo (map ?bump cart) = cart"
    by (simp only: map_map)
  moreover have "filter (\<lambda>item. quantity item > 0) cart = cart"
    using cart_inv_positive [OF assms] by (intro filter_True) auto
  ultimately show ?thesis
    using True by (simp only: addToCart_present updateQuantity_def)
qed

theorem add_then_decrement_witness:
  "cart_inv [with_quantity ring 3]
   \<and> addToCart shirt [with_quantity ring 3] = [with_quantity ring 3, with_quantity shirt 1]
   \<and> updateQuantity (id' shirt) (- 1) (addToCart shirt [with_quantity ring 3])
        = [with_quantity ring 3]
   \<and> updateQuantity (id' ring) (- 1) (addToCart ring [with_quantity ring 3])
        = [with_quantity ring 3]"
proof -
  have inv: "cart_inv [with_quantity ring 3]"
    by (simp add: cart_inv_def ids_def)
  have "addToCart shirt [with_quantity ring 3] = [with_quantity ring 3, with_quantity shirt 1]"
    by (simp add: addToCart_def existingItem_def shirt_def ring_def)
  with inv add_then_decrement [OF inv, of shirt] add_then_decrement [OF inv, of ring]
  show ?thesis by simp
qed

text \<open>
  Claim C9. On a cart that satisfies the invariants and has an entry with identifier
  \<open>i\<close> and quantity \<open>q\<close>, \<open>updateQuantity i (-q)\<close> gives the same cart as
  \<open>removeFromCart i\<close>.
\<close>

theorem updateQuantity_all_is_remove:
  assumes "cart_inv cart" and "item \<in> set cart" and "id' item = i" and "quantity item = q"
  shows "updateQuantity i (- q) cart = removeFromCart i cart"
  using updateQuantity_drop [OF assms(1-3), of "- q"] assms(4)
  by (simp add: removeFromCart_def)

theorem updateQuantity_all_is_remove_witness:
  "cart_inv [with_quantity shirt 2, with_quantity ring 4]
   \<and> updateQuantity 2 (- 4) [with_quantity shirt 2, with_quantity ring 4]
        = removeFromCart 2 [with_quantity shirt 2, with_quantity ring 4]
   \<and> removeFromCart 2 [with_quantity shirt 2, with_quantity ring 4] = [with_quantity shirt 2]"
proof -
  let ?cart = "[with_quantity shirt 2, with_quantity ring 4]"
  have inv: "cart_inv ?cart"
    by (simp add: cart_inv_def ids_def shirt_def ring_def)
  have r: "with_quantity ring 4 \<in> set ?cart" "id' (with_quantity ring 4) = 2"
    "quantity (with_quantity ring 4) = 4"
    by (simp_all add: ring_def)
  have "removeFromCart 2 ?cart = [with_quantity shirt 2]"
    by (simp add: removeFromCart_def shirt_def ring_def)
  with inv updateQuantity_all_is_remove [OF inv r] show ?thesis by simp
qed

text \<open>
  Claim C6. For every cart, \<open>totalCost\<close> is the sum over the entries of price
  times quantity as double arithmetic computes it from \<open>0\<close>, entry after entry: each
  product and each partial sum is rounded to the nearest double. It is the exact sum
  whenever no step rounds, that is when every price, quantity, product and partial sum
  is a finite double itself, and an integer of magnitude below \<open>2 ^ 53\<close> times a power of two
  from \<open>2 ^ (-1074)\<close> to \<open>2 ^ 971\<close> is one. \<open>totalItems\<close> is the sum of the quantities.
  Both are functions of the cart alone. For a cart of an entry with price \<open>10\<close> and
  quantity \<open>2\<close> and an entry with price \<open>5\<close> and quantity \<open>1\<close> they are \<open>25\<close> and
  \<open>3\<close>.
\<close>

theorem totals_spec:
  "totalCost [] = Num 0
   \<and> totalCost (cart @ [item]) =
        number_add (totalCost cart)
          (number_mul (Num (price item)) (number_of_int (quantity item)))
   \<and> (no_rounding 0 cart \<longrightarrow>
        totalCost cart = Num (\<Sum>item \<leftarrow> cart. price item * of_int (quantity item)))
   \<and> (\<bar>m\<bar> < 2 ^ 53 \<and> - 1074 \<le> e \<and> e \<le> 971 \<longrightarrow> is_double (of_int m * 2 powi e))
   \<and> totalItems cart = (\<Sum>item \<leftarrow> cart. quantity item)
   \<and> totalCost [a\<lparr>price := 10, quantity := 2\<rparr>, b\<lparr>price := 5, quantity := 1\<rparr>] = Num 25
   \<and> totalItems [a\<lparr>price := 10, quantity := 2\<rparr>, b\<lparr>price := 5, quantity := 1\<rparr>] = 3"
proof (intro conjI impI)
  show "totalCost [] = Num 0"
    by (simp add: totalCost_def)
next
  show "totalCost (cart @ [item]) =
        number_add (totalCost cart)
          (number_mul (Num (price item)) (number_of_int (quantity item)))"
    by (simp add: totalCost_def)
next
  assume "no_rounding 0 cart"
  then show "totalCost cart = Num (\<Sum>item \<leftarrow> cart. price item * of_int (quantity item))"
    using no_rounding_fold [of 0 cart] by (simp add: totalCost_def)
next
  assume "\<bar>m\<bar> < 2 ^ 53 \<and> - 1074 \<le> e \<and> e \<le> 971"
  then show "is_double (of_int m * 2 powi e)"
    by (simp add: is_double_def round_number_exact)
next
  show "totalItems cart = (\<Sum>item \<leftarrow> cart. quantity item)"
    by (simp add: totalItems_def foldl_plus_sum_list)
next
  show "totalCost [a\<lparr>price := 10, quantity := 2\<rparr>, b\<lparr>price := 5, quantity := 1\<rparr>] = Num 25"
    by (simp add: totalCost_def number_of_int_def small_ints_round)
next
  show "totalItems [a\<lparr>price := 10, quantity := 2\<rparr>, b\<lparr>price := 5, quantity := 1\<rparr>] = 3"
    by (simp add: totalItems_def)
qed

theorem totals_spec_witness:
  "no_rounding 0 [with_quantity shirt 2, with_quantity ring 1]
   \<and> totalCost [with_quantity shirt 2, with_quantity ring 1] = Num 25
   \<and> totalItems [with_quantity shirt 2, with_quantity ring 1] = 3
   \<and> \<bar>5545057041199923 :: int\<bar> < 2 ^ 53
   \<and> is_double (price earrings)"
proof -
  let ?cart = "[with_quantity shirt 2, with_quantity ring 1]"
  have exact: "no_rounding 0 ?cart"
    by (simp add: with_quantity_def shirt_def ring_def is_double_def small_ints_round)
  have bound: "\<bar>5545057041199923 :: int\<bar> < 2 ^ 53 \<and> (- 1074 :: int) \<le> - 49 \<and> (- 49 :: int) \<le> 971"
    by simp
  note spec = totals_spec [of ?cart _ 5545057041199923 "- 49"]
  from spec exact
  have "totalCost ?cart = Num (\<Sum>item \<leftarrow> ?cart. price item * of_int (quantity item))"
    by blast
  then have cost: "totalCost ?cart = Num 25"
    by (simp add: with_quantity_def shirt_def ring_def)
  from spec have "totalItems ?cart = (\<Sum>item \<leftarrow> ?cart. quantity item)"
    by blast
  then have items: "totalItems ?cart = 3"
    by simp
  from spec bound have "is_double (of_int 5545057041199923 * 2 powi (- 49))"
    by blast
  then have "is_double (price earrings)"
    by (simp add: earrings_def power_int_minus_divide)
  with exact cost items show ?thesis by simp
qed

text \<open>
  Claim C6 with \<open>totalCost\<close> the exact sum for every cart does not hold of the code.
  Three \<open>addToCart\<close> calls for a product priced \<open>9.85\<close> give one entry with quantity
  \<open>3\<close>, so that the sum over the entries is the price times \<open>3\<close>; this product has
  54 significant bits and is rounded, and \<open>totalCost\<close> is \<open>29.549999999999997\<close>, below
  three times the price.
\<close>

theorem totalCost_exact_sum_counterexample:
  "run_ops [AddToCart earrings, AddToCart earrings, AddToCart earrings]
     = [with_quantity earrings 3]
   \<and> is_double (price earrings)
   \<and> totalCost [with_quantity earrings 3] = Num (2079396390449971 / 70368744177664)
   \<and> price (with_quantity earrings 3) * of_int (quantity (with_quantity earrings 3))
        = 16635171123599769 / 562949953421312
   \<and> totalCost (run_ops [AddToCart earrings, AddToCart earrings, AddToCart earrings])
        \<noteq> Num (price (with_quantity earrings 3)
                  * of_int (quantity (with_quantity earrings 3)))"
proof -
  have cart: "run_ops [AddToCart earrings, AddToCart earrings, AddToCart earrings]
     = [with_quantity earrings 3]"
    by (simp add: run_ops_def addToCart_def existingItem_def with_quantity_def)
  have price: "is_double (price earrings)"
    by (simp add: is_double_def earrings_def round_price)
  have three: "number_of_int 3 = Num 3"
    using round_number_int [of 3] by (simp add: number_of_int_def)
  have cost: "totalCost [with_quantity earrings 3] = Num (2079396390449971 / 70368744177664)"
    by (simp add: totalCost_def with_quantity_def earrings_def three round_price_times_three
        round_rounded_product)
  have exact: "price (with_quantity earrings 3) * of_int (quantity (with_quantity earrings 3))
        = 16635171123599769 / 562949953421312"
    by (simp add: with_quantity_def earrings_def)
  show ?thesis
    using price cost exact by (simp add: cart)
qed

text \<open>
  Claim C8. For every cart and identifier, \<open>removeFromCart i\<close> keeps exactly the entries
  whose identifier is not \<open>i\<close>, unchanged and in their order, whatever the quantity of
  the entry it deletes: a cart with one entry for \<open>i\<close> loses that entry and nothing
  else, and a cart with no entry for \<open>i\<close> is returned as it is.
\<close>

theorem removeFromCart_spec:
  "(\<forall>item. item \<in> set (removeFromCart i cart) \<longleftrightarrow> item \<in> set cart \<and> id' item \<noteq> i)
   \<and> removeFromCart i cart = filter (\<lambda>item. id' item \<noteq> i) cart
   \<and> (\<forall>before item after.
          cart = before @ item # after \<and> id' item = i
            \<and> i \<notin> set (ids before) \<and> i \<notin> set (ids after)
          \<longrightarrow> removeFromCart i cart = before @ after)
   \<and> (i \<notin> set (ids cart) \<longrightarrow> removeFromCart i cart = cart)"
proof (intro conjI allI impI)
  fix item
  show "item \<in> set (removeFromCart i cart) \<longleftrightarrow> item \<in> set cart \<and> id' item \<noteq> i"
    by (simp add: removeFromCart_def)
next
  show "removeFromCart i cart = filter (\<lambda>item. id' item \<noteq> i) cart"
    by (simp add: removeFromCart_def)
next
  fix before item after
  assume h: "cart = before @ item # after \<and> id' item = i
            \<and> i \<notin> set (ids before) \<and> i \<notin> set (ids after)"
  then have "filter (\<lambda>item. id' item \<noteq> i) before = before"
    and "filter (\<lambda>item. id' item \<noteq> i) after = after"
    by (simp_all add: filter_other_ids)
  with h show "removeFromCart i cart = before @ after"
    by (simp add: removeFromCart_def)
next
  assume "i \<notin> set (ids cart)"
  then show "removeFromCart i cart = cart"
    by (simp add: removeFromCart_def filter_other_ids)
qed

theorem removeFromCart_spec_witness:
  "removeFromCart 1 [with_quantity shirt 5, with_quantity ring 1] = [with_quantity ring 1]
   \<and> removeFromCart 3 [with_quantity shirt 5, with_quantity ring 1]
       = [with_quantity shirt 5, with_quantity ring 1]"
proof -
  have absent: "3 \<notin> set (ids [with_quantity shirt 5, with_quantity ring 1])"
    by (simp add: ids_def shirt_def ring_def)
  have split: "[with_quantity shirt 5, with_quantity ring 1] = [] @ with_quantity shirt 5 # [with_quantity ring 1]
      \<and> id' (with_quantity shirt 5) = 1 \<and> 1 \<notin> set (ids []) \<and> 1 \<notin> set (ids [with_quantity ring 1])"
    by (simp add: ids_def shirt_def ring_def)
  from removeFromCart_spec [of 3 "[with_quantity shirt 5, with_quantity ring 1]"] absent
  have "removeFromCart 3 [with_quantity shirt 5, with_quantity ring 1]
       = [with_quantity shirt 5, with_quantity ring 1]" by blast
  moreover from removeFromCart_spec [of 1 "[with_quantity shirt 5, with_quantity ring 1]"] split
  have "removeFromCart 1 [with_quantity shirt 5, with_quantity ring 1] = [] @ [with_quantity ring 1]"
    by blast
  ultimately show ?thesis by simp
qed

section \<open>Basic facts about the insertion steps\<close>

lemma entered_snoc:
  "entered (ops @ [op]) i =
     (if i \<in> set (ids (run_ops (ops @ [op]))) then
        (if i \<in> set (ids (run_ops ops)) then entered ops i else Some (length ops))
      else None)"
  by (simp add: entered_def)

lemma sorted_wrt_subseq:
  "subseq ys xs \<Longrightarrow> sorted_wrt R xs \<Longrightarrow> sorted_wrt R ys"
proof (induction rule: list_emb.induct)
  case (list_emb_Nil ys)
  show ?case by simp
next
  case (list_emb_Cons xs ys y)
  then show ?case by simp
next
  case (list_emb_Cons2 x y xs ys)
  then have "set xs \<subseteq> set ys" by (auto dest: list_emb_set)
  with list_emb_Cons2 show ?case by auto
qed

lemma new_id_from_add:
  assumes "i \<in> set (ids (apply_op op cart))" and "i \<notin> set (ids cart)"
  shows "\<exists>product. op = AddToCart product \<and> id' product = i"
proof (cases op)
  case (AddToCart p)
  with assms show ?thesis by (auto simp: ids_addToCart split: if_splits)
next
  case (UpdateQuantity j d)
  with assms ids_updateQuantity [of j d cart] show ?thesis
    by (auto dest: list_emb_set)
next
  case (RemoveFromCart j)
  with assms show ?thesis by (simp add: ids_removeFromCart)
qed

lemma entry_of_add_run_ops:
  "i \<in> set (ids (run_ops ops)) \<Longrightarrow>
     \<exists>n product. entered ops i = Some n \<and> n < length ops
        \<and> ops ! n = AddToCart product \<and> id' product = i"
proof (induction ops arbitrary: i rule: rev_induct)
  case Nil
  then show ?case by (simp add: run_ops_def ids_def)
next
  case (snoc op ops)
  show ?case
  proof (cases "i \<in> set (ids (run_ops ops))")
    case True
    then obtain n product where n: "entered ops i = Some n" "n < length ops"
        "ops ! n = AddToCart product" "id' product = i"
      using snoc.IH by blast
    have "entered (ops @ [op]) i = Some n"
      using snoc.prems True n(1) by (simp add: entered_snoc)
    moreover have "(ops @ [op]) ! n = AddToCart product"
      using n(2,3) by (simp add: nth_append)
    ultimately show ?thesis
      using n(2,4) by auto
  next
    case False
    from snoc.prems have "i \<in> set (ids (apply_op op (run_ops ops)))"
      by (simp add: run_ops_snoc)
    with False obtain product where "op = AddToCart product" "id' product = i"
      using new_id_from_add by blast
    moreover have "entered (ops @ [op]) i = Some (length ops)"
      using snoc.prems False by (simp add: entered_snoc)
    ultimately show ?thesis
      by auto
  qed
qed

lemma entered_before_snoc:
  assumes "a \<in> set (ids (run_ops ops))" "a \<in> set (ids (run_ops (ops @ [op])))"
    and "b \<in> set (ids (run_ops ops))" "b \<in> set (ids (run_ops (ops @ [op])))"
  shows "entered_before (ops @ [op]) a b = entered_before ops a b"
  using assms by (simp add: entered_before_def entered_snoc)

lemma entered_before_new:
  assumes "a \<in> set (ids (run_ops ops))" "a \<in> set (ids (run_ops (ops @ [op])))"
    and "b \<notin> set (ids (run_ops ops))" "b \<in> set (ids (run_ops (ops @ [op])))"
  shows "entered_before (ops @ [op]) a b"
proof -
  from entry_of_add_run_ops [OF assms(1)] obtain n where "entered ops a = Some n" "n < length ops"
    by blast
  with assms show ?thesis by (simp add: entered_before_def entered_snoc)
qed

lemma insertion_order_run_ops: "sorted_wrt (entered_before ops) (ids (run_ops ops))"
proof (induction ops rule: rev_induct)
  case Nil
  show ?case by (simp add: run_ops_def ids_def)
next
  case (snoc op ops)
  let ?cart = "run_ops ops"
  let ?cart' = "run_ops (ops @ [op])"
  have kept: "sorted_wrt (entered_before (ops @ [op])) xs"
    if "subseq xs (ids ?cart)" and "set xs \<subseteq> set (ids ?cart')" for xs
  proof -
    from that(1) snoc.IH have "sorted_wrt (entered_before ops) xs"
      by (rule sorted_wrt_subseq)
    moreover from that(1) have "set xs \<subseteq> set (ids ?cart)"
      by (auto dest: list_emb_set)
    ultimately show ?thesis
      using that(2) by (elim sorted_wrt_mono_rel [rotated]) (simp add: entered_before_snoc subset_iff)
  qed
  show ?case
  proof (cases "subseq (ids ?cart') (ids ?cart)")
    case True
    then show ?thesis by (intro kept) simp_all
  next
    case False
    then obtain product where op: "op = AddToCart product"
      and absent: "id' product \<notin> set (ids ?cart)"
      using ids_updateQuantity
      by (cases op) (auto simp: run_ops_snoc ids_addToCart ids_removeFromCart split: if_splits)
    then have ids': "ids ?cart' = ids ?cart @ [id' product]"
      by (simp add: run_ops_snoc ids_addToCart)
    have "sorted_wrt (entered_before (ops @ [op])) (ids ?cart)"
      by (intro kept) (auto simp: ids')
    moreover have "entered_before (ops @ [op]) a (id' product)" if "a \<in> set (ids ?cart)" for a
      using that absent by (intro entered_before_new) (simp_all add: ids')
    ultimately show ?thesis
      by (simp add: ids' sorted_wrt_append)
  qed
qed

text \<open>
  Claim C10. Every cart operation keeps the entries it retains in their order:
  \<open>addToCart\<close> leaves the sequence of identifiers as it is or appends the new identifier
  at its end, and the identifiers after \<open>updateQuantity\<close> and \<open>removeFromCart\<close> are a
  subsequence of those before. Hence in every cart reached from the empty cart the
  entries stand in the order of their insertion: each entry was inserted by an
  \<open>addToCart\<close> call of the history for its product, and these calls come in the history
  in the order of the entries in the cart. The insertion of an entry is the call that
  brought the present entry in: later \<open>addToCart\<close> calls for the product do not move
  it, and a product that was removed and added again has a new entry, at the end.
\<close>

theorem cart_insertion_order:
  "ids (addToCart product cart) =
      (if id' product \<in> set (ids cart) then ids cart else ids cart @ [id' product])
   \<and> subseq (ids (updateQuantity i delta cart)) (ids cart)
   \<and> ids (removeFromCart i cart) = filter (\<lambda>j. j \<noteq> i) (ids cart)
   \<and> sorted_wrt (entered_before ops) (ids (run_ops ops))
   \<and> (\<forall>j \<in> set (ids (run_ops ops)).
         \<exists>n p. entered ops j = Some n \<and> n < length ops \<and> ops ! n = AddToCart p \<and> id' p = j)"
  using entry_of_add_run_ops [of _ ops]
  by (simp add: ids_addToCart ids_updateQuantity ids_removeFromCart insertion_order_run_ops)

theorem cart_insertion_order_witness:
  "ids (run_ops [AddToCart shirt, AddToCart ring, RemoveFromCart 1, AddToCart shirt, AddToCart ring])
     = [2, 1]
   \<and> entered [AddToCart shirt, AddToCart ring, RemoveFromCart 1, AddToCart shirt, AddToCart ring] 2
     = Some 1
   \<and> entered [AddToCart shirt, AddToCart ring, RemoveFromCart 1, AddToCart shirt, AddToCart ring] 1
     = Some 3
   \<and> sorted_wrt
        (entered_before [AddToCart shirt, AddToCart ring, RemoveFromCart 1, AddToCart shirt, AddToCart ring])
        [2, 1]"
proof -
  let ?ops = "[AddToCart shirt, AddToCart ring, RemoveFromCart 1, AddToCart shirt, AddToCart ring]"
  have now: "ids (run_ops ?ops) = [2, 1]"
    by code_simp
  have steps: "entered ?ops 2 = Some 1" "entered ?ops 1 = Some 3"
    by code_simp+
  from cart_insertion_order [of shirt "[]" 1 1 ?ops]
  have "sorted_wrt (entered_before ?ops) (ids (run_ops ?ops))"
    by blast
  with now steps show ?thesis by simp
qed

section \<open>Basic facts about the catalog view\<close>

lemma toLowerCase_Nil: "toLowerCase [] = []"
  by (simp add: toLowerCase_def)

lemma includes_iff:
  "includes' str searchString \<longleftrightarrow> (\<exists>pre suf. str = pre @ searchString @ suf)"
  by (simp add: includes'_def sublist_def)

lemma searchEffect_filtered:
  "filteredProducts (searchEffect st) =
     filter (\<lambda>p. (selectedCategory st = ''all'' \<or> category p = selectedCategory st)
                \<and> (\<exists>pre suf. toLowerCase (title p) = pre @ toLowerCase (searchQuery st) @ suf))
       (products st)"
  by (simp add: searchEffect_def includes_iff Let_def conj_commute)

lemma searchEffect_other [simp]:
  "products (searchEffect st) = products st"
  "selectedCategory (searchEffect st) = selectedCategory st"
  "searchQuery (searchEffect st) = searchQuery st"
  by (simp_all add: searchEffect_def Let_def)

lemma categoryEffect_other [simp]:
  "products (categoryEffect st) = products st"
  "selectedCategory (categoryEffect st) = selectedCategory st"
  "searchQuery (categoryEffect st) = searchQuery st"
  by (simp_all add: categoryEffect_def Let_def)

section \<open>Claims about the catalog view\<close>

text \<open>
  Claim C1. For every catalog, selected category and search text, the visible list that
  the filter effects leave in \<open>filteredProducts\<close> holds exactly the products of the
  catalog whose category is the selected one (every product when it is \<open>all\<close>) and whose
  title, in lower case, contains the search text in lower case as a contiguous run;
  they stand in the catalog's order, with nothing sorted. This is so after the first
  render, after a change of the search text, after a change of the category and after
  the catalog arrived. An empty search text matches every title.
\<close>

theorem visible_products_spec:
  "filteredProducts (searchEffect st) =
     filter (\<lambda>p. (selectedCategory st = ''all'' \<or> category p = selectedCategory st)
                \<and> (\<exists>pre suf. toLowerCase (title p) = pre @ toLowerCase (searchQuery st) @ suf))
       (products st)
   \<and> filteredProducts (first_render st) = filteredProducts (searchEffect st)
   \<and> filteredProducts (setSearchQuery s st) =
     filter (\<lambda>p. (selectedCategory st = ''all'' \<or> category p = selectedCategory st)
                \<and> (\<exists>pre suf. toLowerCase (title p) = pre @ toLowerCase s @ suf))
       (products st)
   \<and> filteredProducts (setSelectedCategory k st) =
     filter (\<lambda>p. (k = ''all'' \<or> category p = k)
                \<and> (\<exists>pre suf. toLowerCase (title p) = pre @ toLowerCase (searchQuery st) @ suf))
       (products st)
   \<and> filteredProducts (render_settled (Responded True (Inr C)) st) =
     filter (\<lambda>p. (selectedCategory st = ''all'' \<or> category p = selectedCategory st)
                \<and> (\<exists>pre suf. toLowerCase (title p) = pre @ toLowerCase (searchQuery st) @ suf))
       C
   \<and> subseq (filteredProducts (searchEffect st)) (products st)
   \<and> (searchQuery st = [] \<longrightarrow>
        filteredProducts (searchEffect st) =
          filter (\<lambda>p. selectedCategory st = ''all'' \<or> category p = selectedCategory st)
            (products st))"
proof (intro conjI impI)
  show "filteredProducts (searchEffect st) =
     filter (\<lambda>p. (selectedCategory st = ''all'' \<or> category p = selectedCategory st)
                \<and> (\<exists>pre suf. toLowerCase (title p) = pre @ toLowerCase (searchQuery st) @ suf))
       (products st)"
    by (rule searchEffect_filtered)
next
  show "filteredProducts (first_render st) = filteredProducts (searchEffect st)"
    by (simp add: first_render_def searchEffect_filtered)
next
  show "filteredProducts (setSearchQuery s st) =
     filter (\<lambda>p. (selectedCategory st = ''all'' \<or> category p = selectedCategory st)
                \<and> (\<exists>pre suf. toLowerCase (title p) = pre @ toLowerCase s @ suf))
       (products st)"
    by (simp add: setSearchQuery_def searchEffect_filtered)
next
  show "filteredProducts (setSelectedCategory k st) =
     filter (\<lambda>p. (k = ''all'' \<or> category p = k)
                \<and> (\<exists>pre suf. toLowerCase (title p) = pre @ toLowerCase (searchQuery st) @ suf))
       (products st)"
    by (simp add: setSelectedCategory_def searchEffect_filtered)
next
  show "filteredProducts (render_settled (Responded True (Inr C)) st) =
     filter (\<lambda>p. (selectedCategory st = ''all'' \<or> category p = selectedCategory st)
                \<and> (\<exists>pre suf. toLowerCase (title p) = pre @ toLowerCase (searchQuery st) @ suf))
       C"
    by (simp add: render_settled_def searchEffect_filtered fetch_settle_def fetch_finally_def)
next
  show "subseq (filteredProducts (searchEffect st)) (products st)"
    by (simp add: searchEffect_filtered)
next
  have "\<And>str :: string. \<exists>pre suf. str = pre @ suf"
    by (metis append_Nil)
  moreover assume "searchQuery st = []"
  ultimately show "filteredProducts (searchEffect st) =
          filter (\<lambda>p. selectedCategory st = ''all'' \<or> category p = selectedCategory st)
            (products st)"
    by (simp add: searchEffect_filtered toLowerCase_Nil)
qed

theorem visible_products_spec_witness:
  "filteredProducts (setSearchQuery ''shirt'' (initial_state\<lparr>products := [shirt, ring]\<rparr>)) = [shirt]
   \<and> filter (\<lambda>p. (selectedCategory (initial_state\<lparr>products := [shirt, ring]\<rparr>) = ''all''
                  \<or> category p = selectedCategory (initial_state\<lparr>products := [shirt, ring]\<rparr>))
                \<and> (\<exists>pre suf. toLowerCase (title p) = pre @ toLowerCase ''shirt'' @ suf))
       (products (initial_state\<lparr>products := [shirt, ring]\<rparr>)) = [shirt]
   \<and> filteredProducts (setSelectedCategory ''jewelery'' (initial_state\<lparr>products := [shirt, ring]\<rparr>)) = [ring]
   \<and> searchQuery (initial_state\<lparr>products := [shirt, ring]\<rparr>) = []
   \<and> filter (\<lambda>p. selectedCategory (initial_state\<lparr>products := [shirt, ring]\<rparr>) = ''all''
                  \<or> category p = selectedCategory (initial_state\<lparr>products := [shirt, ring]\<rparr>))
       (products (initial_state\<lparr>products := [shirt, ring]\<rparr>)) = [shirt, ring]"
proof -
  let ?st = "initial_state\<lparr>products := [shirt, ring]\<rparr>"
  have search: "filteredProducts (setSearchQuery ''shirt'' ?st) = [shirt]"
    by code_simp
  have pick: "filteredProducts (setSelectedCategory ''jewelery'' ?st) = [ring]"
    by code_simp
  have all: "filteredProducts (searchEffect ?st) = [shirt, ring]"
    by code_simp
  have empty: "searchQuery ?st = []"
    by (simp add: initial_state_def)
  note spec = visible_products_spec [of ?st "''shirt''"]
  from spec have "filteredProducts (setSearchQuery ''shirt'' ?st) =
     filter (\<lambda>p. (selectedCategory ?st = ''all'' \<or> category p = selectedCategory ?st)
                \<and> (\<exists>pre suf. toLowerCase (title p) = pre @ toLowerCase ''shirt'' @ suf))
       (products ?st)"
    by blast
  moreover from spec empty have "filteredProducts (searchEffect ?st) =
          filter (\<lambda>p. selectedCategory ?st = ''all'' \<or> category p = selectedCategory ?st)
            (products ?st)"
    by blast
  ultimately show ?thesis
    using search pick all empty by (simp only: simp_thms)
qed

text \<open>
  Claim C7. The catalog fetch as a step on the outcome of its one request. On success
  it stores the decoded list as the catalog, leaves the error cleared (also when an
  earlier error was set) and ends the loading state. On a failure (a rejected request,
  a response whose status is not a success, a body that does not decode) it sets the
  error to the message of the failure, which is not empty unless the thrown \<open>Error\<close>
  object has an empty message itself, leaves the catalog as it was, which is empty from
  the initial state, and ends the loading state. In each case it takes one outcome of
  the network and leaves the later ones: there is no second request.
\<close>

theorem fetchProducts_spec:
  "fetchProducts (Responded True (Inr data) # later) st =
      (st\<lparr>products := data, filteredProducts := data, loading := False, error := []\<rparr>, later)
   \<and> fetchProducts (Responded False body # later) st =
      (st\<lparr>loading := False, error := ''Failed to fetch products''\<rparr>, later)
   \<and> fetchProducts (Rejected (JsError message) # later) st =
      (st\<lparr>loading := False, error := message\<rparr>, later)
   \<and> fetchProducts (Rejected OtherValue # later) st =
      (st\<lparr>loading := False, error := ''An error occurred while fetching products''\<rparr>, later)
   \<and> fetchProducts (Responded True (Inl err) # later) st = fetchProducts (Rejected err # later) st
   \<and> (is_failure outcome \<longrightarrow>
        products (fst (fetchProducts (outcome # later) st)) = products st
        \<and> products (fst (fetchProducts (outcome # later) initial_state)) = []
        \<and> \<not> loading (fst (fetchProducts (outcome # later) st))
        \<and> snd (fetchProducts (outcome # later) st) = later
        \<and> (outcome \<noteq> Rejected (JsError []) \<and> outcome \<noteq> Responded True (Inl (JsError []))
             \<longrightarrow> error (fst (fetchProducts (outcome # later) st)) \<noteq> []))"
proof -
  have fail: "products (fst (fetchProducts (outcome # later) st)) = products st
        \<and> products (fst (fetchProducts (outcome # later) initial_state)) = []
        \<and> \<not> loading (fst (fetchProducts (outcome # later) st))
        \<and> snd (fetchProducts (outcome # later) st) = later
        \<and> (outcome \<noteq> Rejected (JsError []) \<and> outcome \<noteq> Responded True (Inl (JsError []))
             \<longrightarrow> error (fst (fetchProducts (outcome # later) st)) \<noteq> [])"
    if "is_failure outcome"
  proof (cases outcome)
    case (Rejected err)
    then show ?thesis
      by (cases err)
        (simp_all add: fetch_settle_def fetch_catch_def fetch_finally_def fetch_start_def
          initial_state_def)
  next
    case (Responded ok body)
    with that show ?thesis
      by (cases body; cases ok)
        (auto simp: fetch_settle_def fetch_catch_def fetch_finally_def fetch_start_def
          initial_state_def split: thrown.splits)
  qed
  show ?thesis
    using fail
    by (simp add: fetch_settle_def fetch_catch_def fetch_finally_def fetch_start_def)
qed

theorem fetchProducts_spec_witness:
  "is_failure (Responded False (Inr [shirt]))
   \<and> fetchProducts [Responded False (Inr [shirt]), Responded True (Inr [shirt])] initial_state
       = (initial_state\<lparr>loading := False, error := ''Failed to fetch products''\<rparr>,
          [Responded True (Inr [shirt])])
   \<and> products (fst (fetchProducts [Responded False (Inr [shirt]), Responded True (Inr [shirt])]
         initial_state)) = []
   \<and> error (fst (fetchProducts [Responded True (Inr [shirt, ring])]
         (initial_state\<lparr>error := ''stale''\<rparr>))) = []
   \<and> products (fst (fetchProducts [Responded True (Inr [shirt, ring])]
         (initial_state\<lparr>error := ''stale''\<rparr>))) = [shirt, ring]"
proof -
  have failure: "is_failure (Responded False (Inr [shirt]))"
    by simp
  note bad = fetchProducts_spec [of "[shirt]" "[Responded True (Inr [shirt])]" initial_state
      "Inr [shirt]" "[]" "JsError []" "Responded False (Inr [shirt])"]
  note good = fetchProducts_spec [of "[shirt, ring]" "[]" "initial_state\<lparr>error := ''stale''\<rparr>"]
  from bad failure have "products (fst (fetchProducts
      [Responded False (Inr [shirt]), Responded True (Inr [shirt])] initial_state)) = []"
    by blast
  moreover from bad have "fetchProducts
      [Responded False (Inr [shirt]), Responded True (Inr [shirt])] initial_state
       = (initial_state\<lparr>loading := False, error := ''Failed to fetch products''\<rparr>,
          [Responded True (Inr [shirt])])"
    by blast
  moreover from good have "fetchProducts [Responded True (Inr [shirt, ring])]
         (initial_state\<lparr>error := ''stale''\<rparr>) =
      (initial_state\<lparr>error := ''stale'', products := [shirt, ring],
         filteredProducts := [shirt, ring], loading := False, error := []\<rparr>, [])"
    by blast
  ultimately show ?thesis
    using failure by simp
qed


end
